theory Spec2Isabelle
  imports Complex_Main "HOL-Library.AList"
begin

section \<open>Data model of the K-Medoids engine\<close>

text \<open>
  The engine is the class \<open>KMedoids\<close>. Its numbers are idealised as follows: a distance is a
  \<open>real\<close> (finite by type), the value \<open>Infinity\<close> that the code uses as a sentinel is the
  constructor \<open>PInf\<close> of \<open>jsnum\<close> or the \<open>None\<close> of a search result, and \<open>undefined\<close>, read
  from a row at a column it does not have, is the \<open>None\<close> of \<open>getDistance\<close>.

  A JavaScript \<open>Set\<close> iterates in insertion order and holds no duplicates: it is a list
  without duplicates, \<open>add\<close> appends an absent element and \<open>delete\<close> removes the element.
  A \<open>Map\<close> is an association list in insertion order: \<open>set\<close> is \<open>AList.update\<close>, and a
  change of the value stored under a key is \<open>AList.map_entry\<close>.
\<close>

datatype error = Error string | TypeError

datatype jsnum = Num real | PInf

definition set_add :: "'a \<Rightarrow> 'a list \<Rightarrow> 'a list" where
  "set_add x s = (if x \<in> set s then s else s @ [x])"

definition set_delete :: "'a \<Rightarrow> 'a list \<Rightarrow> 'a list" where
  "set_delete x s = removeAll x s"

definition new_Set :: "'a list \<Rightarrow> 'a list" where
  "new_Set xs = fold set_add xs []"

record KMedoids =
  distanceMatrix :: "real list list"
  nClusters :: int
  nPoints :: nat
  nRange :: "nat list"
  startProb :: real
  endProb :: real
  clusters :: "(nat \<times> nat list) list option"
  medoids :: "nat list"

subsection \<open>The constructor\<close>

definition constructor :: "real list list \<Rightarrow> int \<Rightarrow> real \<Rightarrow> real \<Rightarrow> error + KMedoids" where
  "constructor dm k sp ep =
     (if \<not> (0 \<le> sp \<and> sp < ep \<and> ep \<le> 1) then
        Inl (Error ''startProb must be smaller than endProb.'')
      else if \<not> (k < int (length dm)) then
        Inl (Error ''number of clusters must not exceed number of data points.'')
      else
        Inr \<lparr>distanceMatrix = dm, nClusters = k, nPoints = length dm,
             nRange = new_Set [0..<length dm], startProb = sp, endProb = ep,
             clusters = None, medoids = []\<rparr>)"

subsection \<open>Distances and the two nearest-neighbour queries\<close>

text \<open>
  \<open>getDistance\<close> reads \<open>distanceMatrix[point1][point2]\<close>. Every caller takes \<open>point1\<close> from
  \<open>nRange\<close>, the row indices, so the row exists; a column the row does not have reads as
  \<open>undefined\<close>, which is \<open>None\<close> here.
\<close>

definition getDistance :: "KMedoids \<Rightarrow> nat \<Rightarrow> nat \<Rightarrow> real option" where
  "getDistance E point1 point2 =
     (if point1 < length (distanceMatrix E) \<and> point2 < length (distanceMatrix E ! point1)
      then Some (distanceMatrix E ! point1 ! point2) else None)"

text \<open>
  The test \<open>distance < closestDistance\<close>: the running minimum is \<open>None\<close> while it is still
  \<open>Infinity\<close> (and the index still \<open>-1\<close> or \<open>null\<close>), and a comparison with \<open>undefined\<close>
  is false.
\<close>

fun closer :: "real option \<Rightarrow> (nat \<times> real) option \<Rightarrow> bool" where
  "closer None closest = False"
| "closer (Some distance) None = True"
| "closer (Some distance) (Some (i, closestDistance)) = (distance < closestDistance)"

definition closest_step :: "nat \<Rightarrow> real option \<Rightarrow> (nat \<times> real) option \<Rightarrow> (nat \<times> real) option" where
  "closest_step i distance closest =
     (case distance of
        None \<Rightarrow> closest
      | Some d \<Rightarrow> if closer (Some d) closest then Some (i, d) else closest)"

definition getClosestMedoid :: "KMedoids \<Rightarrow> nat list \<Rightarrow> nat \<Rightarrow> (nat \<times> real) option" where
  "getClosestMedoid E meds point =
     fold (\<lambda>medoid closest. closest_step medoid (getDistance E point medoid) closest) meds None"

definition getClosestPoint :: "KMedoids \<Rightarrow> nat \<Rightarrow> nat list \<Rightarrow> (nat \<times> real) option" where
  "getClosestPoint E medoid exception =
     fold (\<lambda>point closest. closest_step point (getDistance E point medoid) closest)
       (new_Set (filter (\<lambda>x. x \<notin> set exception) (nRange E))) None"

definition getNonMedoids :: "KMedoids \<Rightarrow> nat list \<Rightarrow> nat list" where
  "getNonMedoids E meds = new_Set (filter (\<lambda>x. x \<notin> set meds) (nRange E))"

subsection \<open>Assignment and cost\<close>

record assoc_state =
  aclusters :: "(nat \<times> nat list) list"
  clustersCosts :: "(nat \<times> real) list"
  alreadyAssociatedPoints :: "nat list"
  associatedPoints :: nat

definition assoc_init :: "nat list \<Rightarrow> assoc_state" where
  "assoc_init meds =
     fold (\<lambda>medoid st. st\<lparr>aclusters := AList.update medoid [medoid] (aclusters st),
                           clustersCosts := AList.update medoid 0 (clustersCosts st)\<rparr>)
       meds
       \<lparr>aclusters = [], clustersCosts = [], alreadyAssociatedPoints = new_Set meds,
        associatedPoints = length meds\<rparr>"

definition assoc_step :: "KMedoids \<Rightarrow> nat \<Rightarrow> assoc_state \<Rightarrow> assoc_state" where
  "assoc_step E medoid st =
     (case getClosestPoint E medoid (alreadyAssociatedPoints st) of
        None \<Rightarrow> st
      | Some (point, distance) \<Rightarrow>
          st\<lparr>aclusters := AList.map_entry medoid (set_add point) (aclusters st),
             clustersCosts := AList.map_entry medoid (\<lambda>c. c + distance) (clustersCosts st),
             alreadyAssociatedPoints := set_add point (alreadyAssociatedPoints st),
             associatedPoints := associatedPoints st + 1\<rparr>)"

partial_function (option) assoc_loop :: "KMedoids \<Rightarrow> nat list \<Rightarrow> assoc_state \<Rightarrow> assoc_state option" where
  "assoc_loop E meds st =
     (if associatedPoints st \<noteq> nPoints E
      then assoc_loop E meds (fold (assoc_step E) meds st)
      else Some st)"

declare assoc_loop.simps [code]

definition cluster_mean :: "assoc_state \<Rightarrow> nat \<Rightarrow> real" where
  "cluster_mean st medoid =
     (case (map_of (clustersCosts st) medoid, map_of (aclusters st) medoid) of
        (Some c, Some s) \<Rightarrow> c / real (length s)
      | _ \<Rightarrow> 0)"

definition associateMedoidsToClosestPoint ::
  "KMedoids \<Rightarrow> nat list \<Rightarrow> ((nat \<times> nat list) list \<times> real) option" where
  "associateMedoidsToClosestPoint E meds =
     (case assoc_loop E meds (assoc_init meds) of
        None \<Rightarrow> None
      | Some st \<Rightarrow>
          Some (aclusters st, sum_list (map (cluster_mean st) (map fst (aclusters st)))))"

subsection \<open>Seeding\<close>

text \<open>
  \<open>Math.round\<close> rounds a half up. The library function \<open>random(lower, upper)\<close> of lodash,
  on two integers, exchanges them when \<open>lower > upper\<close> and returns
  \<open>lower + floor(Math.random() * (upper - lower + 1))\<close>; the natural number \<open>r\<close> stands
  for the draw, so that every integer between the two bounds is the result for some \<open>r\<close>.
  \<open>_.sortBy\<close> is a stable sort by the key, here by insertion, on keys that are a finite
  distance or \<open>Infinity\<close>.
\<close>

definition Math_round :: "real \<Rightarrow> int" where
  "Math_round x = \<lfloor>x + 1 / 2\<rfloor>"

definition random :: "int \<Rightarrow> int \<Rightarrow> nat \<Rightarrow> int" where
  "random lower upper r =
     (let lo = min lower upper; hi = max lower upper
      in lo + int (r mod nat (hi - lo + 1)))"

fun le_num :: "jsnum \<Rightarrow> jsnum \<Rightarrow> bool" where
  "le_num (Num a) (Num b) = (a \<le> b)"
| "le_num a PInf = True"
| "le_num PInf (Num b) = False"

fun insort_by :: "('a \<Rightarrow> jsnum) \<Rightarrow> 'a \<Rightarrow> 'a list \<Rightarrow> 'a list" where
  "insort_by f x [] = [x]"
| "insort_by f x (y # ys) = (if le_num (f x) (f y) then x # y # ys else y # insort_by f x ys)"

definition sortBy :: "('a \<Rightarrow> jsnum) \<Rightarrow> 'a list \<Rightarrow> 'a list" where
  "sortBy f xs = foldr (insort_by f) xs []"

fun distance_of :: "(nat \<times> real) option \<Rightarrow> jsnum" where
  "distance_of None = PInf"
| "distance_of (Some (m, d)) = Num d"

definition seed_distances :: "KMedoids \<Rightarrow> nat list \<Rightarrow> (nat \<times> jsnum) list" where
  "seed_distances E meds =
     map (\<lambda>point. (point, distance_of (getClosestMedoid E meds point)))
       (filter (\<lambda>point. point \<notin> set meds) (nRange E))"

definition startIdx :: "KMedoids \<Rightarrow> nat \<Rightarrow> int" where
  "startIdx E count = \<lfloor>startProb E * real count\<rfloor>"

definition endIdx :: "KMedoids \<Rightarrow> nat \<Rightarrow> int" where
  "endIdx E count = Math_round (endProb E * (real count - 1))"

text \<open>
  One round of the seeding loop reads \<open>distancesSorted[random(startIdx, endIdx)].point\<close>.
  An index outside the array reads \<open>undefined\<close>, whose \<open>.point\<close> throws a
  \<open>TypeError\<close>. The raw draws of the random source are the function \<open>rnd\<close>, asked at
  the number of medoids chosen so far.
\<close>

lemma set_insort_by: "set (insort_by f x xs) = insert x (set xs)"
  by (induction xs) auto

lemma set_sortBy: "set (sortBy f xs) = set xs"
  unfolding sortBy_def by (induction xs) (auto simp: set_insort_by)

lemma length_insort_by: "length (insort_by f x xs) = Suc (length xs)"
  by (induction xs) auto

lemma length_sortBy: "length (sortBy f xs) = length xs"
  unfolding sortBy_def by (induction xs) (auto simp: length_insort_by)

lemma length_filter_set_add:
  assumes "p \<in> set xs" "p \<notin> set meds"
  shows "length (filter (\<lambda>x. x \<notin> set (set_add p meds)) xs) < length (filter (\<lambda>x. x \<notin> set meds) xs)"
proof -
  have eq: "filter (\<lambda>x. x \<notin> set (set_add p meds)) xs
              = filter (\<lambda>x. x \<noteq> p) (filter (\<lambda>x. x \<notin> set meds) xs)"
    using assms(2) by (auto simp: set_add_def intro: filter_cong)
  have "p \<in> set (filter (\<lambda>x. x \<notin> set meds) xs)"
    using assms by simp
  then have "length (filter (\<lambda>x. x \<noteq> p) (filter (\<lambda>x. x \<notin> set meds) xs))
               < length (filter (\<lambda>x. x \<notin> set meds) xs)"
    by (intro length_filter_less[of p]) auto
  then show ?thesis by (simp only: eq)
qed

lemma seed_pick_fresh:
  assumes "0 \<le> i" "i < int (length (sortBy snd (seed_distances E meds)))"
  shows "fst (sortBy snd (seed_distances E meds) ! nat i) \<in> set (nRange E)
         \<and> fst (sortBy snd (seed_distances E meds) ! nat i) \<notin> set meds"
proof -
  have "sortBy snd (seed_distances E meds) ! nat i \<in> set (sortBy snd (seed_distances E meds))"
    using assms by (intro nth_mem) linarith
  then have "sortBy snd (seed_distances E meds) ! nat i \<in> set (seed_distances E meds)"
    by (simp only: set_sortBy)
  then show ?thesis
    by (auto simp: seed_distances_def)
qed

function initialize_loop :: "(nat \<Rightarrow> nat) \<Rightarrow> KMedoids \<Rightarrow> nat list \<Rightarrow> error + nat list" where
  "initialize_loop rnd E meds =
     (if int (length meds) \<noteq> nClusters E then
        (let distances = seed_distances E meds;
             distancesSorted = sortBy snd distances;
             i = random (startIdx E (length distances)) (endIdx E (length distances))
                   (rnd (length meds))
         in if 0 \<le> i \<and> i < int (length distancesSorted)
            then initialize_loop rnd E (set_add (fst (distancesSorted ! nat i)) meds)
            else Inl TypeError)
      else Inr meds)"
  by pat_completeness auto
termination
proof (relation "measure (\<lambda>(rnd, E, meds). length (filter (\<lambda>x. x \<notin> set meds) (nRange E)))")
  show "wf (measure (\<lambda>(rnd, E, meds). length (filter (\<lambda>x. x \<notin> set meds) (nRange E))))"
    by simp
next
  fix rnd :: "nat \<Rightarrow> nat" and E :: KMedoids and meds :: "nat list"
    and distances distancesSorted i
  assume d: "distances = seed_distances E meds"
    and s: "distancesSorted = sortBy snd distances"
    and i: "0 \<le> i \<and> i < int (length distancesSorted)"
  have "fst (distancesSorted ! nat i) \<in> set (nRange E) \<and> fst (distancesSorted ! nat i) \<notin> set meds"
    using seed_pick_fresh[of i E meds] i unfolding d s by simp
  then have "length (filter (\<lambda>x. x \<notin> set (set_add (fst (distancesSorted ! nat i)) meds)) (nRange E))
               < length (filter (\<lambda>x. x \<notin> set meds) (nRange E))"
    by (intro length_filter_set_add) simp_all
  then show "((rnd, E, set_add (fst (distancesSorted ! nat i)) meds), (rnd, E, meds))
               \<in> measure (\<lambda>(rnd, E, meds). length (filter (\<lambda>x. x \<notin> set meds) (nRange E)))"
    by simp
qed

text \<open>
  The first medoid is \<open>random(0, nPoints - 1)\<close>, an index of a point as soon as there is
  a point. (Without any point the draw may be \<open>-1\<close>, kept here as 0; the first round then
  finds no point left and throws in either case.)
\<close>

definition initializeMedoids :: "(nat \<Rightarrow> nat) \<Rightarrow> KMedoids \<Rightarrow> error + nat list" where
  "initializeMedoids rnd E =
     initialize_loop rnd E (set_add (nat (random 0 (int (nPoints E) - 1) (rnd 0))) [])"

subsection \<open>The refinement loop\<close>

text \<open>
  The state of \<open>run\<close>: the engine (\<open>this\<close>), whose fields \<open>medoids\<close> and \<open>clusters\<close> the
  loop assigns, and the locals \<open>currentCost\<close> and \<open>costChange\<close>. The local \<open>clusters\<close>
  that \<open>run\<close> binds to the initial clustering is never read and never stored, so it has no
  counterpart here.
\<close>

record run_state =
  this :: KMedoids
  currentCost :: real
  costChange :: jsnum

fun foldM :: "('a \<Rightarrow> 's \<Rightarrow> 's option) \<Rightarrow> 'a list \<Rightarrow> 's \<Rightarrow> 's option" where
  "foldM f [] s = Some s"
| "foldM f (x # xs) s = (case f x s of None \<Rightarrow> None | Some s' \<Rightarrow> foldM f xs s')"

definition try_swap :: "nat \<Rightarrow> nat \<Rightarrow> run_state \<Rightarrow> run_state option" where
  "try_swap medoid nonMedoid s =
     (let newMedoids = set_add nonMedoid (set_delete medoid (new_Set (medoids (this s))))
      in case associateMedoidsToClosestPoint (this s) newMedoids of
           None \<Rightarrow> None
         | Some (newClusters, newCost) \<Rightarrow>
             if newCost < currentCost s
             then Some (s\<lparr>this := (this s)\<lparr>medoids := newMedoids, clusters := Some newClusters\<rparr>,
                          costChange := Num (currentCost s - newCost),
                          currentCost := newCost\<rparr>)
             else Some s)"

text \<open>
  One pass of the outer loop. \<open>this.medoids.forEach\<close> runs over the set that the field held
  when the pass began: the loop assigns the field and never changes that set itself.
  \<open>getNonMedoids(this.medoids)\<close> is evaluated anew for each medoid of the pass, from the
  field as it then is, and each candidate is built from the field as it is at that step.
\<close>

definition run_pass :: "run_state \<Rightarrow> run_state option" where
  "run_pass s =
     foldM (\<lambda>medoid s1. foldM (try_swap medoid) (getNonMedoids (this s1) (medoids (this s1))) s1)
       (medoids (this s)) (s\<lparr>costChange := Num 0\<rparr>)"

fun gt_num :: "jsnum \<Rightarrow> real \<Rightarrow> bool" where
  "gt_num PInf t = True"
| "gt_num (Num c) t = (c > t)"

function run_loop :: "int \<Rightarrow> real \<Rightarrow> nat \<Rightarrow> run_state \<Rightarrow> (run_state \<times> nat) option" where
  "run_loop maxIterations tolerance iteration s =
     (if gt_num (costChange s) tolerance \<and> int iteration < maxIterations
      then (case run_pass s of
              None \<Rightarrow> None
            | Some s' \<Rightarrow> run_loop maxIterations tolerance (iteration + 1) s')
      else Some (s, iteration))"
  by pat_completeness auto
termination
  by (relation "measure (\<lambda>(m, t, i, s). nat (m - int i))") auto

text \<open>
  \<open>run_trace\<close> is \<open>run\<close> together with its locals at the end (the costs and the number of
  passes made); \<open>run\<close> keeps the engine only. \<open>None\<close> is a run that does not return,
  \<open>Inl\<close> one that throws.
\<close>

definition run_trace ::
  "(nat \<Rightarrow> nat) \<Rightarrow> KMedoids \<Rightarrow> int \<Rightarrow> real \<Rightarrow> (error + run_state \<times> nat) option" where
  "run_trace rnd E maxIterations tolerance =
     (case initializeMedoids rnd E of
        Inl e \<Rightarrow> Some (Inl e)
      | Inr ms \<Rightarrow>
          (case associateMedoidsToClosestPoint (E\<lparr>medoids := ms\<rparr>) ms of
             None \<Rightarrow> None
           | Some (cl, cost) \<Rightarrow>
               (case run_loop maxIterations tolerance 0
                       \<lparr>this = E\<lparr>medoids := ms\<rparr>, currentCost = cost, costChange = PInf\<rparr> of
                  None \<Rightarrow> None
                | Some r \<Rightarrow> Some (Inr r))))"

definition run :: "(nat \<Rightarrow> nat) \<Rightarrow> KMedoids \<Rightarrow> int \<Rightarrow> real \<Rightarrow> (error + KMedoids) option" where
  "run rnd E maxIterations tolerance =
     map_option (map_sum id (\<lambda>(s, iteration). this s)) (run_trace rnd E maxIterations tolerance)"

subsection \<open>Well-formed engines and the demonstration data\<close>

text \<open>
  A distance matrix is square when every row is as long as the matrix. \<open>well_formed\<close> is what
  the constructor establishes on a square matrix and what \<open>run\<close>, which assigns the fields
  \<open>medoids\<close> and \<open>clusters\<close> only, preserves.
\<close>

definition square :: "real list list \<Rightarrow> bool" where
  "square dm = (\<forall>row\<in>set dm. length row = length dm)"

definition well_formed :: "KMedoids \<Rightarrow> bool" where
  "well_formed E =
     (nPoints E = length (distanceMatrix E) \<and> nRange E = [0..<nPoints E] \<and>
      square (distanceMatrix E))"

text \<open>The matrix of five points on a line that \<open>App.tsx\<close> clusters with \<open>nClusters = 2\<close>.\<close>

definition demo_matrix :: "real list list" where
  "demo_matrix = [[0, 1, 2, 3, 4], [1, 0, 1, 2, 3], [2, 1, 0, 1, 2], [3, 2, 1, 0, 1], [4, 3, 2, 1, 0]]"

definition demo_engine :: KMedoids where
  "demo_engine =
     \<lparr>distanceMatrix = demo_matrix, nClusters = 2, nPoints = 5, nRange = [0, 1, 2, 3, 4],
      startProb = 9 / 10, endProb = 99 / 100, clusters = None, medoids = []\<rparr>"

text \<open>
  Three points, the middle one at distance 1 from both ends, clustered with \<open>nClusters = 1\<close>
  and the default probability window.
\<close>

definition three_matrix :: "real list list" where
  "three_matrix = [[0, 1, 5], [1, 0, 1], [5, 1, 0]]"

definition three_engine :: KMedoids where
  "three_engine =
     \<lparr>distanceMatrix = three_matrix, nClusters = 1, nPoints = 3, nRange = [0, 1, 2],
      startProb = 9 / 10, endProb = 99 / 100, clusters = None, medoids = []\<rparr>"

text \<open>
  The invariant of the assignment loop: the keys of \<open>clusters\<close> are the medoids in order,
  each cluster starts with its medoid, the clusters are pairwise disjoint and together hold
  exactly the points marked as associated, the counter is the number of those points, and
  the cost stored for a medoid is the sum of the distances of the points added to its cluster.
\<close>

definition cost_entry :: "KMedoids \<Rightarrow> nat \<times> nat list \<Rightarrow> nat \<times> real" where
  "cost_entry E = (\<lambda>(m, c). (m, \<Sum>p\<leftarrow>tl c. distanceMatrix E ! p ! m))"

definition assoc_inv :: "KMedoids \<Rightarrow> nat list \<Rightarrow> assoc_state \<Rightarrow> bool" where
  "assoc_inv E meds st =
     (map fst (aclusters st) = meds \<and>
      clustersCosts st = map (cost_entry E) (aclusters st) \<and>
      (\<forall>(m, c)\<in>set (aclusters st). c \<noteq> [] \<and> hd c = m) \<and>
      distinct (concat (map snd (aclusters st))) \<and>
      set (concat (map snd (aclusters st))) = set (alreadyAssociatedPoints st) \<and>
      distinct (alreadyAssociatedPoints st) \<and>
      set (alreadyAssociatedPoints st) \<subseteq> {0..<nPoints E} \<and>
      associatedPoints st = length (alreadyAssociatedPoints st))"

text \<open>
  The invariant of the refinement loop over \<open>n\<close> points: the engine stays well formed, and
  \<open>this.medoids\<close> is a non-empty set of indices below \<open>n\<close>.
\<close>

definition run_inv :: "nat \<Rightarrow> run_state \<Rightarrow> bool" where
  "run_inv n s =
     (well_formed (this s) \<and> nPoints (this s) = n \<and> medoids (this s) \<noteq> [] \<and>
      distinct (medoids (this s)) \<and> set (medoids (this s)) \<subseteq> {0..<n})"

section \<open>Sets as lists, and the constructor\<close>

lemma set_fold_set_add: "set (fold set_add xs acc) = set acc \<union> set xs"
  by (induction xs arbitrary: acc) (auto simp: set_add_def)

lemma distinct_fold_set_add: "distinct acc \<Longrightarrow> distinct (fold set_add xs acc)"
  by (induction xs arbitrary: acc) (auto simp: set_add_def)

lemma fold_set_add_distinct: "distinct (acc @ xs) \<Longrightarrow> fold set_add xs acc = acc @ xs"
  by (induction xs arbitrary: acc) (auto simp: set_add_def)

lemma new_Set_distinct: "distinct xs \<Longrightarrow> new_Set xs = xs"
  unfolding new_Set_def using fold_set_add_distinct[of "[]" xs] by simp

lemma set_new_Set: "set (new_Set xs) = set xs"
  unfolding new_Set_def by (simp add: set_fold_set_add)

lemma distinct_new_Set: "distinct (new_Set xs)"
  unfolding new_Set_def by (simp add: distinct_fold_set_add)

lemma set_set_add: "set (set_add x s) = insert x (set s)"
  by (auto simp: set_add_def)

lemma distinct_set_add: "distinct s \<Longrightarrow> distinct (set_add x s)"
  by (auto simp: set_add_def)

lemma set_add_fresh: "x \<notin> set s \<Longrightarrow> set_add x s = s @ [x]"
  by (simp add: set_add_def)

lemma set_set_delete: "set (set_delete x s) = set s - {x}"
  by (auto simp: set_delete_def)

lemma distinct_set_delete: "distinct s \<Longrightarrow> distinct (set_delete x s)"
  by (simp add: set_delete_def distinct_removeAll)

lemma constructor_Inr:
  assumes "constructor dm k sp ep = Inr E"
  shows "0 \<le> sp \<and> sp < ep \<and> ep \<le> 1 \<and> k < int (length dm) \<and>
         E = \<lparr>distanceMatrix = dm, nClusters = k, nPoints = length dm,
              nRange = [0..<length dm], startProb = sp, endProb = ep,
              clusters = None, medoids = []\<rparr>"
  using assms by (auto simp: constructor_def new_Set_distinct split: if_splits)

lemma constructor_well_formed:
  "constructor dm k sp ep = Inr E \<Longrightarrow> square dm \<Longrightarrow> well_formed E"
  by (drule constructor_Inr) (simp add: well_formed_def)

lemma demo_constructed: "constructor demo_matrix 2 (9 / 10) (99 / 100) = Inr demo_engine"
  by (simp add: constructor_def demo_matrix_def demo_engine_def new_Set_def set_add_def
      upt_conv_Cons)

lemma demo_well_formed: "well_formed demo_engine"
  by (simp add: well_formed_def square_def demo_engine_def demo_matrix_def upt_conv_Cons)

text \<open>
  C6. Construction fails, with the \<open>Error\<close> that the specification calls InvalidParameter,
  exactly when \<open>startProb \<ge> endProb\<close>, or \<open>startProb < 0\<close>, or \<open>endProb > 1\<close>, or
  \<open>k \<ge> n\<close> where \<open>n\<close> is the number of rows of the matrix. Otherwise it returns the engine
  that stores the matrix, \<open>k\<close>, \<open>n\<close>, the index range \<open>0..n-1\<close> and the probability
  window, with \<open>clusters\<close> unset and the medoid set empty.
\<close>

theorem constructor_contract:
  "((\<exists>msg. constructor dm k sp ep = Inl (Error msg)) \<longleftrightarrow>
      (sp \<ge> ep \<or> sp < 0 \<or> ep > 1 \<or> k \<ge> int (length dm))) \<and>
   ((\<exists>msg. constructor dm k sp ep = Inl (Error msg)) \<or>
      constructor dm k sp ep =
        Inr \<lparr>distanceMatrix = dm, nClusters = k, nPoints = length dm,
             nRange = [0..<length dm], startProb = sp, endProb = ep,
             clusters = None, medoids = []\<rparr>)"
  by (auto simp: constructor_def new_Set_distinct)

theorem constructor_contract_witness:
  "constructor demo_matrix 2 (9 / 10) (99 / 100) = Inr demo_engine
   \<and> (\<exists>msg. constructor demo_matrix 5 (9 / 10) (99 / 100) = Inl (Error msg))
   \<and> (\<exists>msg. constructor demo_matrix 2 (1 / 2) (1 / 2) = Inl (Error msg))
   \<and> (\<exists>msg. constructor demo_matrix 2 (- 1 / 10) (1 / 2) = Inl (Error msg))
   \<and> (\<exists>msg. constructor demo_matrix 2 (1 / 2) (11 / 10) = Inl (Error msg))"
proof -
  have len: "length demo_matrix = 5" by (simp add: demo_matrix_def)
  have dm: "demo_engine = \<lparr>distanceMatrix = demo_matrix, nClusters = 2, nPoints = 5,
             nRange = [0..<5], startProb = 9 / 10, endProb = 99 / 100,
             clusters = None, medoids = []\<rparr>"
    by (simp add: demo_engine_def upt_conv_Cons)
  have a: "constructor demo_matrix 2 (9 / 10) (99 / 100) = Inr demo_engine"
    using constructor_contract[of demo_matrix 2 "9 / 10" "99 / 100"] by (auto simp: len dm)
  have b: "\<exists>msg. constructor demo_matrix 5 (9 / 10) (99 / 100) = Inl (Error msg)"
    using constructor_contract[of demo_matrix 5 "9 / 10" "99 / 100"] by (simp add: len)
  have c: "\<exists>msg. constructor demo_matrix 2 (1 / 2) (1 / 2) = Inl (Error msg)"
    using constructor_contract[of demo_matrix 2 "1 / 2" "1 / 2"] by simp
  have d: "\<exists>msg. constructor demo_matrix 2 (- 1 / 10) (1 / 2) = Inl (Error msg)"
    using constructor_contract[of demo_matrix 2 "- 1 / 10" "1 / 2"] by simp
  have e: "\<exists>msg. constructor demo_matrix 2 (1 / 2) (11 / 10) = Inl (Error msg)"
    using constructor_contract[of demo_matrix 2 "1 / 2" "11 / 10"] by simp
  show ?thesis using a b c d e by simp
qed

text \<open>
  C10. The constructor does not ask for a positive cluster count: on a matrix with at least
  one row, \<open>nClusters = 0\<close> or a negative integer and a valid probability window give an
  engine and no error.
\<close>

theorem constructor_accepts_nonpositive_k:
  assumes "1 \<le> length dm" "k \<le> 0" "0 \<le> sp" "sp < ep" "ep \<le> 1"
  shows "\<exists>E. constructor dm k sp ep = Inr E \<and> nClusters E = k"
  using assms by (auto simp: constructor_def)

theorem constructor_accepts_nonpositive_k_witness:
  "(\<exists>E. constructor demo_matrix 0 (9 / 10) (99 / 100) = Inr E \<and> nClusters E = 0) \<and>
   (\<exists>E. constructor [[0]] (- 3) 0 1 = Inr E \<and> nClusters E = - 3)"
  using constructor_accepts_nonpositive_k[of demo_matrix 0 "9 / 10" "99 / 100"]
    constructor_accepts_nonpositive_k[of "[[0]]" "- 3" 0 1]
  by (simp add: demo_matrix_def)

lemma startIdx_bounds:
  assumes "0 \<le> startProb E" "startProb E < 1" "1 \<le> count"
  shows "0 \<le> startIdx E count \<and> startIdx E count \<le> int count - 1"
proof -
  have "startProb E * real count < real count"
    using assms by (simp add: mult_less_cancel_right1)
  then have "\<lfloor>startProb E * real count\<rfloor> < int count"
    by (simp add: floor_less_iff)
  moreover have "0 \<le> startProb E * real count" using assms by simp
  ultimately show ?thesis unfolding startIdx_def by simp
qed

lemma endIdx_bounds:
  assumes "0 \<le> endProb E" "endProb E \<le> 1" "1 \<le> count"
  shows "0 \<le> endIdx E count \<and> endIdx E count \<le> int count - 1"
proof -
  have c: "0 \<le> real count - 1" using assms by simp
  have "endProb E * (real count - 1) \<le> 1 * (real count - 1)"
    using assms c by (intro mult_right_mono) auto
  then have "endProb E * (real count - 1) + 1 / 2 < real count" by simp
  then have "\<lfloor>endProb E * (real count - 1) + 1 / 2\<rfloor> < int count"
    by (simp add: floor_less_iff)
  moreover have "0 \<le> endProb E * (real count - 1) + 1 / 2" using assms c by simp
  ultimately show ?thesis unfolding endIdx_def Math_round_def by simp
qed

lemma random_bounds: "min lower upper \<le> random lower upper r \<and> random lower upper r \<le> max lower upper"
proof -
  have "0 < nat (max lower upper - min lower upper + 1)" by simp
  then have "r mod nat (max lower upper - min lower upper + 1) < nat (max lower upper - min lower upper + 1)"
    by (rule mod_less_divisor)
  then show ?thesis unfolding random_def Let_def by linarith
qed

section \<open>The nearest-neighbour queries and the maps of the assignment\<close>

lemma closest_fold_None:
  "fold (\<lambda>x closest. closest_step x (g x) closest) xs acc = None
     \<longleftrightarrow> acc = None \<and> (\<forall>x\<in>set xs. g x = None)"
proof (induction xs arbitrary: acc)
  case Nil
  then show ?case by simp
next
  case (Cons a xs)
  have step: "closest_step a (g a) acc = None \<longleftrightarrow> acc = None \<and> g a = None"
    by (cases "g a"; cases acc) (auto simp: closest_step_def)
  show ?case by (auto simp: Cons.IH step)
qed

lemma closest_fold_Some:
  assumes "fold (\<lambda>x closest. closest_step x (g x) closest) xs acc = Some (p, d)"
  shows "acc = Some (p, d) \<or> (p \<in> set xs \<and> g p = Some d)"
  using assms
  by (induction xs arbitrary: acc) (auto simp: closest_step_def split: option.splits if_splits)

lemma getClosestPoint_Some:
  assumes "getClosestPoint E medoid exception = Some (p, d)"
  shows "p \<in> set (nRange E) \<and> p \<notin> set exception \<and> getDistance E p medoid = Some d"
  using closest_fold_Some[OF assms[unfolded getClosestPoint_def]]
  by (auto simp: set_new_Set)

lemma getClosestPoint_None:
  "getClosestPoint E medoid exception = None
     \<longleftrightarrow> (\<forall>p\<in>set (nRange E). p \<notin> set exception \<longrightarrow> getDistance E p medoid = None)"
  unfolding getClosestPoint_def closest_fold_None by (auto simp: set_new_Set)

lemma getDistance_well_formed:
  assumes "well_formed E" "p < nPoints E" "m < nPoints E"
  shows "getDistance E p m = Some (distanceMatrix E ! p ! m)"
  using assms by (auto simp: well_formed_def square_def getDistance_def)

lemma update_fresh: "k \<notin> fst ` set ps \<Longrightarrow> AList.update k v ps = ps @ [(k, v)]"
  by (induction ps) auto

lemma map_fst_map_entry: "map fst (AList.map_entry k f ps) = map fst ps"
  by (induction ps) auto

lemma map_entry_heads:
  assumes "\<forall>(m, c)\<in>set ps. c \<noteq> [] \<and> hd c = m"
  shows "\<forall>(m, c)\<in>set (AList.map_entry k (set_add p) ps). c \<noteq> [] \<and> hd c = m"
  using assms by (induction ps) (auto simp: set_add_def)

lemma map_entry_concat:
  assumes "k \<in> fst ` set ps" "p \<notin> set (concat (map snd ps))" "distinct (concat (map snd ps))"
  shows "distinct (concat (map snd (AList.map_entry k (set_add p) ps)))
         \<and> set (concat (map snd (AList.map_entry k (set_add p) ps)))
             = insert p (set (concat (map snd ps)))"
  using assms
proof (induction ps)
  case Nil
  then show ?case by simp
next
  case (Cons a ps)
  show ?case
  proof (cases "fst a = k")
    case True
    then show ?thesis using Cons.prems by (auto simp: set_add_def)
  next
    case False
    then have "k \<in> fst ` set ps" using Cons.prems(1) by auto
    moreover have "p \<notin> set (concat (map snd ps))" "distinct (concat (map snd ps))"
      using Cons.prems by auto
    ultimately have IH: "distinct (concat (map snd (AList.map_entry k (set_add p) ps)))
         \<and> set (concat (map snd (AList.map_entry k (set_add p) ps)))
             = insert p (set (concat (map snd ps)))"
      by (rule Cons.IH)
    show ?thesis using False IH Cons.prems(2,3) by auto
  qed
qed

lemma map_entry_costs:
  assumes "\<forall>(m, c)\<in>set ps. c \<noteq> []" "p \<notin> set (concat (map snd ps))"
  shows "AList.map_entry k (\<lambda>c. c + distanceMatrix E ! p ! k) (map (cost_entry E) ps)
           = map (cost_entry E) (AList.map_entry k (set_add p) ps)"
  using assms by (induction ps) (auto simp: cost_entry_def set_add_def)

section \<open>The assignment loop keeps its invariant and returns\<close>

lemma assoc_init_fold:
  assumes "distinct (map fst (aclusters st) @ ms)" "map fst (clustersCosts st) = map fst (aclusters st)"
  shows "fold (\<lambda>medoid st. st\<lparr>aclusters := AList.update medoid [medoid] (aclusters st),
                           clustersCosts := AList.update medoid 0 (clustersCosts st)\<rparr>) ms st
         = st\<lparr>aclusters := aclusters st @ map (\<lambda>m. (m, [m])) ms,
              clustersCosts := clustersCosts st @ map (\<lambda>m. (m, 0)) ms\<rparr>"
  using assms
proof (induction ms arbitrary: st)
  case Nil
  then show ?case by simp
next
  case (Cons m ms)
  have fresh: "m \<notin> fst ` set (aclusters st)" "m \<notin> fst ` set (clustersCosts st)"
    using Cons.prems by (auto simp flip: set_map)
  let ?st = "st\<lparr>aclusters := aclusters st @ [(m, [m])], clustersCosts := clustersCosts st @ [(m, 0)]\<rparr>"
  have "distinct (map fst (aclusters ?st) @ ms)" "map fst (clustersCosts ?st) = map fst (aclusters ?st)"
    using Cons.prems by auto
  from Cons.IH[OF this] show ?case
    by (simp add: update_fresh[OF fresh(1)] update_fresh[OF fresh(2)])
qed

lemma assoc_init_eq:
  assumes "distinct meds"
  shows "assoc_init meds = \<lparr>aclusters = map (\<lambda>m. (m, [m])) meds,
           clustersCosts = map (\<lambda>m. (m, 0)) meds,
           alreadyAssociatedPoints = meds, associatedPoints = length meds\<rparr>"
  unfolding assoc_init_def using assms
  by (subst assoc_init_fold) (simp_all add: new_Set_distinct)

lemma concat_singletons: "concat (map snd (map (\<lambda>m. (m, [m])) ms)) = ms"
  by (induction ms) auto

lemma assoc_inv_init:
  assumes "distinct meds" "set meds \<subseteq> {0..<nPoints E}"
  shows "assoc_inv E meds (assoc_init meds)"
  using assms
  by (simp add: assoc_init_eq assoc_inv_def concat_singletons cost_entry_def comp_def)

lemma assoc_step_cases:
  obtains (none) "getClosestPoint E medoid (alreadyAssociatedPoints st) = None"
      "assoc_step E medoid st = st"
  | (some) p d where "getClosestPoint E medoid (alreadyAssociatedPoints st) = Some (p, d)"
      "assoc_step E medoid st =
         st\<lparr>aclusters := AList.map_entry medoid (set_add p) (aclusters st),
            clustersCosts := AList.map_entry medoid (\<lambda>c. c + d) (clustersCosts st),
            alreadyAssociatedPoints := set_add p (alreadyAssociatedPoints st),
            associatedPoints := associatedPoints st + 1\<rparr>"
  by (cases "getClosestPoint E medoid (alreadyAssociatedPoints st)") (auto simp: assoc_step_def)

lemma assoc_inv_medoid_range:
  assumes "assoc_inv E meds st" "medoid \<in> set meds"
  shows "medoid < nPoints E"
proof -
  have "map fst (aclusters st) = meds" using assms(1) unfolding assoc_inv_def by simp
  then have "medoid \<in> set (map fst (aclusters st))" using assms(2) by simp
  then obtain c where mc: "(medoid, c) \<in> set (aclusters st)" by auto
  then have "c \<noteq> []" "hd c = medoid" using assms(1) unfolding assoc_inv_def by auto
  then have "medoid \<in> set c" by (metis hd_in_set)
  then have "medoid \<in> set (concat (map snd (aclusters st)))" using mc by force
  moreover have "set (concat (map snd (aclusters st))) = set (alreadyAssociatedPoints st)"
    "set (alreadyAssociatedPoints st) \<subseteq> {0..<nPoints E}"
    using assms(1) unfolding assoc_inv_def by simp_all
  ultimately have "medoid \<in> {0..<nPoints E}" by blast
  then show ?thesis by simp
qed

lemma assoc_inv_step:
  assumes wf: "well_formed E" and inv: "assoc_inv E meds st" and m: "medoid \<in> set meds"
  shows "assoc_inv E meds (assoc_step E medoid st)"
proof (cases rule: assoc_step_cases[of E medoid st])
  case none
  then show ?thesis using inv by simp
next
  case (some p d)
  from getClosestPoint_Some[OF some(1)]
  have p: "p \<in> set (nRange E)" "p \<notin> set (alreadyAssociatedPoints st)"
    and gd: "getDistance E p medoid = Some d" by auto
  have pn: "p < nPoints E" using p(1) wf by (simp add: well_formed_def)
  have d: "d = distanceMatrix E ! p ! medoid"
    using gd by (auto simp: getDistance_def split: if_splits)
  have fresh: "p \<notin> set (concat (map snd (aclusters st)))"
    using inv p(2) unfolding assoc_inv_def by simp
  have key: "medoid \<in> fst ` set (aclusters st)"
    using inv m unfolding assoc_inv_def by (metis set_map)
  have dist: "distinct (concat (map snd (aclusters st)))"
    using inv unfolding assoc_inv_def by simp
  have heads: "\<forall>(m, c)\<in>set (aclusters st). c \<noteq> [] \<and> hd c = m"
    using inv unfolding assoc_inv_def by simp
  then have nonempty: "\<forall>(m, c)\<in>set (aclusters st). c \<noteq> []" by auto
  note mc = map_entry_concat[OF key fresh dist]
  have costs: "AList.map_entry medoid (\<lambda>c. c + d) (clustersCosts st)
                 = map (cost_entry E) (AList.map_entry medoid (set_add p) (aclusters st))"
    using map_entry_costs[OF nonempty fresh, of medoid E] inv
    unfolding assoc_inv_def d by simp
  show ?thesis
    unfolding some(2) assoc_inv_def
    using inv mc costs map_entry_heads[OF heads] p(2) pn
    by (simp add: assoc_inv_def map_fst_map_entry set_set_add distinct_set_add set_add_fresh)
qed

lemma assoc_inv_pass:
  assumes "well_formed E" "assoc_inv E meds st" "set ms \<subseteq> set meds"
  shows "assoc_inv E meds (fold (assoc_step E) ms st)"
  using assms by (induction ms arbitrary: st) (auto simp: assoc_inv_step)

lemma assoc_step_mono: "associatedPoints st \<le> associatedPoints (assoc_step E medoid st)"
  by (cases rule: assoc_step_cases[of E medoid st]) auto

lemma assoc_pass_mono: "associatedPoints st \<le> associatedPoints (fold (assoc_step E) ms st)"
proof (induction ms arbitrary: st)
  case Nil
  then show ?case by simp
next
  case (Cons m ms)
  show ?case using assoc_step_mono[of st E m] Cons.IH[of "assoc_step E m st"] by simp
qed

lemma assoc_inv_bound:
  assumes "assoc_inv E meds st"
  shows "associatedPoints st \<le> nPoints E"
proof -
  have "card (set (alreadyAssociatedPoints st)) \<le> card {0..<nPoints E}"
    using assms unfolding assoc_inv_def by (intro card_mono) auto
  then show ?thesis using assms unfolding assoc_inv_def by (simp add: distinct_card)
qed

lemma assoc_inv_complete:
  assumes "assoc_inv E meds st" "associatedPoints st = nPoints E"
  shows "set (alreadyAssociatedPoints st) = {0..<nPoints E}"
proof -
  have "card (set (alreadyAssociatedPoints st)) = card {0..<nPoints E}"
    using assms unfolding assoc_inv_def by (simp add: distinct_card)
  then show ?thesis
    using assms(1) unfolding assoc_inv_def by (intro card_subset_eq) auto
qed

lemma assoc_step_progress:
  assumes wf: "well_formed E" and inv: "assoc_inv E meds st" and m: "medoid \<in> set meds"
    and lt: "associatedPoints st \<noteq> nPoints E"
  shows "associatedPoints st < associatedPoints (assoc_step E medoid st)"
proof (cases rule: assoc_step_cases[of E medoid st])
  case none
  have "set (alreadyAssociatedPoints st) \<noteq> {0..<nPoints E}"
  proof
    assume "set (alreadyAssociatedPoints st) = {0..<nPoints E}"
    then have "card (set (alreadyAssociatedPoints st)) = nPoints E" by simp
    then show False using inv lt unfolding assoc_inv_def by (simp add: distinct_card)
  qed
  moreover have "set (alreadyAssociatedPoints st) \<subseteq> {0..<nPoints E}"
    using inv unfolding assoc_inv_def by simp
  ultimately have "\<exists>p. p \<in> {0..<nPoints E} \<and> p \<notin> set (alreadyAssociatedPoints st)"
    by blast
  then obtain p where p: "p < nPoints E" "p \<notin> set (alreadyAssociatedPoints st)"
    by auto
  have "getDistance E p medoid = None"
    using none(1) p wf unfolding getClosestPoint_None by (simp add: well_formed_def)
  moreover have "getDistance E p medoid = Some (distanceMatrix E ! p ! medoid)"
    using getDistance_well_formed[OF wf p(1) assoc_inv_medoid_range[OF inv m]] .
  ultimately show ?thesis by simp
next
  case (some p d)
  then show ?thesis by simp
qed

lemma assoc_pass_progress:
  assumes wf: "well_formed E" and inv: "assoc_inv E meds st" and ne: "meds \<noteq> []"
    and lt: "associatedPoints st \<noteq> nPoints E"
  shows "associatedPoints st < associatedPoints (fold (assoc_step E) meds st)"
proof -
  obtain m ms where meds: "meds = m # ms" using ne by (cases meds) auto
  have "associatedPoints st < associatedPoints (assoc_step E m st)"
    using assoc_step_progress[OF wf inv _ lt, of m] meds by simp
  also have "\<dots> \<le> associatedPoints (fold (assoc_step E) ms (assoc_step E m st))"
    by (rule assoc_pass_mono)
  finally show ?thesis by (simp add: meds)
qed

lemma assoc_loop_returns:
  assumes wf: "well_formed E" and ne: "meds \<noteq> []" and inv: "assoc_inv E meds st"
  shows "\<exists>st'. assoc_loop E meds st = Some st' \<and> assoc_inv E meds st'
           \<and> associatedPoints st' = nPoints E"
  using inv
proof (induction "nPoints E - associatedPoints st" arbitrary: st rule: less_induct)
  case less
  show ?case
  proof (cases "associatedPoints st = nPoints E")
    case True
    then show ?thesis using less.prems by (subst assoc_loop.simps) simp
  next
    case False
    let ?st = "fold (assoc_step E) meds st"
    have inv': "assoc_inv E meds ?st"
      using assoc_inv_pass[OF wf less.prems] by simp
    have "associatedPoints st < associatedPoints ?st"
      using assoc_pass_progress[OF wf less.prems ne False] .
    moreover have "associatedPoints ?st \<le> nPoints E"
      using assoc_inv_bound[OF inv'] .
    ultimately have "nPoints E - associatedPoints ?st < nPoints E - associatedPoints st"
      by linarith
    from less.hyps[OF this inv'] show ?thesis
      using False by (subst assoc_loop.simps) simp
  qed
qed

section \<open>Clusters and cost of an assignment\<close>

lemma distinct_concat_disjoint:
  assumes "distinct (concat xss)" "i < j" "j < length xss"
  shows "set (xss ! i) \<inter> set (xss ! j) = {}"
  using assms
proof (induction xss arbitrary: i j)
  case Nil
  then show ?case by simp
next
  case (Cons xs xss)
  obtain j' where j: "j = Suc j'" using Cons.prems(2) by (cases j) auto
  show ?case
  proof (cases i)
    case 0
    have "xss ! j' \<in> set xss" using Cons.prems(3) j by simp
    then have "set (xss ! j') \<subseteq> set (concat xss)" by auto
    moreover have "set xs \<inter> set (concat xss) = {}" using Cons.prems(1) by simp
    ultimately show ?thesis using 0 j by auto
  next
    case (Suc i')
    have "set (xss ! i') \<inter> set (xss ! j') = {}"
      using Cons.prems Suc j by (intro Cons.IH) auto
    then show ?thesis using Suc j by simp
  qed
qed

lemma associate_returns:
  assumes wf: "well_formed E" and ne: "meds \<noteq> []" and d: "distinct meds"
    and r: "set meds \<subseteq> {0..<nPoints E}"
  shows "\<exists>st. assoc_loop E meds (assoc_init meds) = Some st \<and> assoc_inv E meds st
           \<and> associatedPoints st = nPoints E
           \<and> associateMedoidsToClosestPoint E meds
               = Some (aclusters st, sum_list (map (cluster_mean st) (map fst (aclusters st))))"
proof -
  obtain st where st: "assoc_loop E meds (assoc_init meds) = Some st" "assoc_inv E meds st"
      "associatedPoints st = nPoints E"
    using assoc_loop_returns[OF wf ne assoc_inv_init[OF d r]] by blast
  then show ?thesis by (simp add: associateMedoidsToClosestPoint_def)
qed

text \<open>
  C2. On a well-formed engine and a non-empty set of distinct medoids in \<open>0..n-1\<close>,
  \<open>associateMedoidsToClosestPoint\<close> returns, its clusters are keyed by the medoids, their
  union is \<open>{0..n-1}\<close>, no point lies in two clusters (nor twice in one), and every medoid
  is a member of its own cluster.
\<close>

theorem associate_partition:
  assumes "well_formed E" "meds \<noteq> []" "distinct meds" "set meds \<subseteq> {0..<nPoints E}"
  shows "\<exists>cl cost. associateMedoidsToClosestPoint E meds = Some (cl, cost)
           \<and> map fst cl = meds
           \<and> (\<Union>(m, c)\<in>set cl. set c) = {0..<nPoints E}
           \<and> (\<forall>i j. i < j \<and> j < length cl \<longrightarrow> set (snd (cl ! i)) \<inter> set (snd (cl ! j)) = {})
           \<and> (\<forall>(m, c)\<in>set cl. distinct c \<and> m \<in> set c)"
proof -
  obtain st where st: "assoc_inv E meds st" "associatedPoints st = nPoints E"
      "associateMedoidsToClosestPoint E meds
         = Some (aclusters st, sum_list (map (cluster_mean st) (map fst (aclusters st))))"
    using associate_returns[OF assms] by blast
  let ?cl = "aclusters st"
  have keys: "map fst ?cl = meds" using st(1) unfolding assoc_inv_def by simp
  have dc: "distinct (concat (map snd ?cl))" using st(1) unfolding assoc_inv_def by simp
  have "set (concat (map snd ?cl)) = set (alreadyAssociatedPoints st)"
    using st(1) unfolding assoc_inv_def by simp
  then have "set (concat (map snd ?cl)) = {0..<nPoints E}"
    using assoc_inv_complete[OF st(1,2)] by simp
  then have cover: "(\<Union>(m, c)\<in>set ?cl. set c) = {0..<nPoints E}"
    by (auto simp: case_prod_beta)
  have disj: "\<forall>i j. i < j \<and> j < length ?cl \<longrightarrow> set (snd (?cl ! i)) \<inter> set (snd (?cl ! j)) = {}"
  proof (intro allI impI)
    fix i j assume ij: "i < j \<and> j < length ?cl"
    then show "set (snd (?cl ! i)) \<inter> set (snd (?cl ! j)) = {}"
      using distinct_concat_disjoint[OF dc, of i j] by simp
  qed
  have heads: "\<forall>(m, c)\<in>set ?cl. c \<noteq> [] \<and> hd c = m"
    using st(1) unfolding assoc_inv_def by simp
  have self: "\<forall>(m, c)\<in>set ?cl. distinct c \<and> m \<in> set c"
  proof (intro ballI, clarify)
    fix m c assume mc: "(m, c) \<in> set ?cl"
    then have "c \<in> set (map snd ?cl)" by force
    then have "distinct c" using dc by (simp add: distinct_concat_iff)
    moreover have "m \<in> set c" using heads mc by (metis (mono_tags, lifting) case_prodD hd_in_set)
    ultimately show "distinct c \<and> m \<in> set c" by simp
  qed
  show ?thesis using st(3) keys cover disj self by blast
qed

theorem associate_partition_witness:
  "\<exists>cl cost. associateMedoidsToClosestPoint demo_engine [1, 3] = Some (cl, cost)
     \<and> map fst cl = [1, 3]
     \<and> (\<Union>(m, c)\<in>set cl. set c) = {0..<5}
     \<and> set (snd (cl ! 0)) \<inter> set (snd (cl ! 1)) = {}
     \<and> 1 \<in> set (snd (cl ! 0)) \<and> 3 \<in> set (snd (cl ! 1))"
proof -
  have r: "set [1, 3] \<subseteq> {0..<nPoints demo_engine}" by (simp add: demo_engine_def)
  from associate_partition[OF demo_well_formed _ _ r]
  obtain cl cost where cl: "associateMedoidsToClosestPoint demo_engine [1, 3] = Some (cl, cost)"
      "map fst cl = [1, 3]" "(\<Union>(m, c)\<in>set cl. set c) = {0..<nPoints demo_engine}"
      "\<forall>i j. i < j \<and> j < length cl \<longrightarrow> set (snd (cl ! i)) \<inter> set (snd (cl ! j)) = {}"
      "\<forall>(m, c)\<in>set cl. distinct c \<and> m \<in> set c"
    by auto
  from cl(2) obtain c0 c1 where shape: "cl = [(1, c0), (3, c1)]"
    by (auto simp: map_eq_Cons_conv)
  have "length cl = 2" using shape by simp
  then have "set (snd (cl ! 0)) \<inter> set (snd (cl ! 1)) = {}"
    using cl(4)[rule_format, of 0 1] by simp
  moreover have "1 \<in> set (snd (cl ! 0)) \<and> 3 \<in> set (snd (cl ! 1))"
    using cl(5) shape by simp
  moreover have "(\<Union>(m, c)\<in>set cl. set c) = {0..<5}"
    using cl(3) by (simp add: demo_engine_def)
  ultimately show ?thesis using cl(1,2) by (intro exI[of _ cl] exI[of _ cost]) simp
qed

lemma map_of_cost_entry:
  "map_of (map (cost_entry E) ps) m
     = map_option (\<lambda>c. \<Sum>p\<leftarrow>tl c. distanceMatrix E ! p ! m) (map_of ps m)"
  by (induction ps) (auto simp: cost_entry_def)

text \<open>
  C7. Under the same conditions the configuration cost is the sum, over the medoids, of the
  medoid's accumulated total divided by the final size of its cluster; the accumulated total
  is the sum of the distances \<open>distanceMatrix[p][m]\<close> of the points \<open>p\<close> that were added
  to the cluster of \<open>m\<close> after \<open>m\<close> itself.
\<close>

theorem associate_cost:
  assumes "well_formed E" "meds \<noteq> []" "distinct meds" "set meds \<subseteq> {0..<nPoints E}"
  shows "\<exists>cl cost. associateMedoidsToClosestPoint E meds = Some (cl, cost)
           \<and> map fst cl = meds
           \<and> (\<forall>(m, c)\<in>set cl. c \<noteq> [] \<and> hd c = m)
           \<and> cost = sum_list (map (\<lambda>(m, c). (\<Sum>p\<leftarrow>tl c. distanceMatrix E ! p ! m) / real (length c)) cl)"
proof -
  obtain st where st: "assoc_inv E meds st"
      "associateMedoidsToClosestPoint E meds
         = Some (aclusters st, sum_list (map (cluster_mean st) (map fst (aclusters st))))"
    using associate_returns[OF assms] by blast
  let ?cl = "aclusters st"
  have keys: "map fst ?cl = meds" using st(1) unfolding assoc_inv_def by simp
  have costs: "clustersCosts st = map (cost_entry E) ?cl"
    using st(1) unfolding assoc_inv_def by simp
  have heads: "\<forall>(m, c)\<in>set ?cl. c \<noteq> [] \<and> hd c = m"
    using st(1) unfolding assoc_inv_def by simp
  have dk: "distinct (map fst ?cl)" using keys assms(3) by simp
  have mean: "cluster_mean st (fst x)
                = (case x of (m, c) \<Rightarrow> (\<Sum>p\<leftarrow>tl c. distanceMatrix E ! p ! m) / real (length c))"
    if "x \<in> set ?cl" for x
  proof -
    obtain m c where x: "x = (m, c)" by (cases x)
    have "map_of ?cl m = Some c" using that dk x by simp
    then show ?thesis
      by (simp add: cluster_mean_def costs map_of_cost_entry x)
  qed
  have "sum_list (map (cluster_mean st) (map fst ?cl))
          = sum_list (map (\<lambda>(m, c). (\<Sum>p\<leftarrow>tl c. distanceMatrix E ! p ! m) / real (length c)) ?cl)"
    unfolding map_map comp_def using mean by (intro arg_cong[where f = sum_list] map_cong) auto
  then show ?thesis using st(2) keys heads by auto
qed

theorem associate_cost_witness:
  "\<exists>cl cost. associateMedoidsToClosestPoint demo_engine [1, 3] = Some (cl, cost)
     \<and> map fst cl = [1, 3]
     \<and> cost = sum_list (map (\<lambda>(m, c). (\<Sum>p\<leftarrow>tl c. distanceMatrix demo_engine ! p ! m)
                                          / real (length c)) cl)"
proof -
  have "set [1, 3] \<subseteq> {0..<nPoints demo_engine}" by (simp add: demo_engine_def)
  from associate_cost[OF demo_well_formed _ _ this] show ?thesis by auto
qed

section \<open>One medoid fewer than points\<close>

lemma assoc_pass_idle:
  assumes "\<forall>m\<in>set ms. getClosestPoint E m (alreadyAssociatedPoints st) = None"
  shows "fold (assoc_step E) ms st = st"
  using assms by (induction ms) (auto simp: assoc_step_def)

lemma single_missing_point:
  assumes "distinct meds" "set meds \<subseteq> {0..<n}" "length meds + 1 = n"
  shows "\<exists>p. p < n \<and> p \<notin> set meds \<and> set (meds @ [p]) = {0..<n}"
proof -
  have "card ({0..<n} - set meds) = card {0..<n} - card (set meds)"
    using assms(2) by (intro card_Diff_subset) auto
  also have "\<dots> = 1" using assms(1,3) by (simp add: distinct_card)
  finally obtain p where p: "{0..<n} - set meds = {p}"
    by (auto simp: card_1_singleton_iff)
  then have "p < n" "p \<notin> set meds" by auto
  moreover have "set (meds @ [p]) = {0..<n}" using p assms(2) by auto
  ultimately show ?thesis by blast
qed

text \<open>
  Without a medoid no pass of the assignment loop associates a point, so on an engine with
  at least one point the loop does not return. \<open>run\<close> never asks for that: seeding starts
  with one medoid and every candidate has the non-medoid just added.
\<close>

lemma assoc_loop_empty_Some:
  assumes "assoc_loop E meds st = Some st'"
  shows "meds = [] \<longrightarrow> associatedPoints st = nPoints E"
proof (rule assoc_loop.raw_induct[where P = "\<lambda>E meds st st'. meds = [] \<longrightarrow> associatedPoints st = nPoints E",
      OF _ assms])
  fix loop :: "KMedoids \<Rightarrow> nat list \<Rightarrow> assoc_state \<Rightarrow> assoc_state option"
    and E meds st st'
  assume IH: "\<And>E meds st y. loop E meds st = Some y \<Longrightarrow> meds = [] \<longrightarrow> associatedPoints st = nPoints E"
    and eq: "(if associatedPoints st \<noteq> nPoints E
              then loop E meds (fold (assoc_step E) meds st) else Some st) = Some st'"
  show "meds = [] \<longrightarrow> associatedPoints st = nPoints E"
  proof (cases "associatedPoints st \<noteq> nPoints E")
    case True
    then have "loop E meds (fold (assoc_step E) meds st) = Some st'" using eq by simp
    from IH[OF this] show ?thesis by simp
  next
    case False
    then show ?thesis by simp
  qed
qed

lemma assoc_loop_empty_diverges:
  assumes "associatedPoints st \<noteq> nPoints E"
  shows "assoc_loop E [] st = None"
proof (cases "assoc_loop E [] st")
  case None
  then show ?thesis .
next
  case (Some st')
  from assoc_loop_empty_Some[OF Some] assms show ?thesis by simp
qed

text \<open>
  C8. With \<open>k = n - 1\<close> distinct medoids in \<open>0..n-1\<close>, of which there is at least one
  (a medoid and a single non-medoid point exist, so \<open>n \<ge> 2\<close>), the assignment returns: exactly one cluster has two points, the first medoid in iteration order
  and the single point that is no medoid, and every other cluster is the singleton of its
  own medoid.
\<close>

theorem associate_all_but_one:
  assumes wf: "well_formed E" and ne: "meds \<noteq> []" and d: "distinct meds"
    and r: "set meds \<subseteq> {0..<nPoints E}" and k: "length meds + 1 = nPoints E"
  shows "\<exists>p cost. p < nPoints E \<and> p \<notin> set meds
           \<and> associateMedoidsToClosestPoint E meds
               = Some ((hd meds, [hd meds, p]) # map (\<lambda>m. (m, [m])) (tl meds), cost)"
proof -
  obtain m0 rest where meds: "meds = m0 # rest" using ne by (cases meds) auto
  obtain p where p: "p < nPoints E" "p \<notin> set meds" "set (meds @ [p]) = {0..<nPoints E}"
    using single_missing_point[OF d r k] by blast
  let ?st0 = "assoc_init meds"
  have st0: "?st0 = \<lparr>aclusters = map (\<lambda>m. (m, [m])) meds,
           clustersCosts = map (\<lambda>m. (m, 0)) meds,
           alreadyAssociatedPoints = meds, associatedPoints = length meds\<rparr>"
    by (rule assoc_init_eq[OF d])
  have m0: "m0 < nPoints E" using r meds by simp
  have "getClosestPoint E m0 meds \<noteq> None"
    using getDistance_well_formed[OF wf p(1) m0] p(1,2) wf
    unfolding getClosestPoint_None by (auto simp: well_formed_def)
  then obtain q dist where q: "getClosestPoint E m0 meds = Some (q, dist)" by auto
  have "q \<in> set (nRange E)" "q \<notin> set meds"
    using getClosestPoint_Some[OF q] by auto
  then have "q \<in> {0..<nPoints E}" "q \<notin> set meds" using wf by (auto simp: well_formed_def)
  then have "q \<in> set (meds @ [p])" "q \<notin> set meds" unfolding p(3) by blast+
  then have qp: "q = p" by simp
  define st1 where "st1 = \<lparr>aclusters = (m0, [m0, p]) # map (\<lambda>m. (m, [m])) rest,
           clustersCosts = (m0, 0 + dist) # map (\<lambda>m. (m, 0)) rest,
           alreadyAssociatedPoints = meds @ [p], associatedPoints = length meds + 1\<rparr>"
  have step: "assoc_step E m0 ?st0 = st1"
    using q p(2) unfolding st0 st1_def qp
    by (simp add: assoc_step_def meds set_add_def)
  have full: "set (nRange E) = set (alreadyAssociatedPoints st1)"
    using wf by (simp only: st1_def assoc_state.simps p(3)) (simp add: well_formed_def)
  have idle: "\<forall>m\<in>set rest. getClosestPoint E m (alreadyAssociatedPoints st1) = None"
    unfolding getClosestPoint_None full by simp
  have pass: "fold (assoc_step E) meds ?st0 = st1"
    using assoc_pass_idle[OF idle] step by (simp add: meds)
  have "associatedPoints ?st0 \<noteq> nPoints E" using k st0 by simp
  then have "assoc_loop E meds ?st0 = assoc_loop E meds st1"
    using pass by (subst assoc_loop.simps) simp
  also have "\<dots> = Some st1"
    using k by (subst assoc_loop.simps) (simp add: st1_def)
  finally have "associateMedoidsToClosestPoint E meds
      = Some (aclusters st1, sum_list (map (cluster_mean st1) (map fst (aclusters st1))))"
    by (simp add: associateMedoidsToClosestPoint_def)
  then show ?thesis using p(1,2) by (auto simp: st1_def meds)
qed

theorem associate_all_but_one_witness:
  "\<exists>p cost. p < 5 \<and> p \<notin> set [4, 0, 2, 1]
     \<and> associateMedoidsToClosestPoint demo_engine [4, 0, 2, 1]
         = Some ([(4, [4, p]), (0, [0]), (2, [2]), (1, [1])], cost)"
proof -
  have "set [4, 0, 2, 1] \<subseteq> {0..<nPoints demo_engine}"
    "length [4, 0, 2, 1 :: nat] + 1 = nPoints demo_engine"
    by (simp_all add: demo_engine_def)
  from associate_all_but_one[OF demo_well_formed _ _ this] show ?thesis
    by (simp add: demo_engine_def)
qed

section \<open>Seeding\<close>

lemma seed_count_positive:
  assumes "nRange E = [0..<nPoints E]" "length meds < nPoints E"
  shows "1 \<le> length (seed_distances E meds)"
proof -
  have "card (set meds) < card {0..<nPoints E}"
    using assms(2) card_length[of meds] by simp
  then have "\<not> {0..<nPoints E} \<subseteq> set meds"
    using card_mono[of "set meds" "{0..<nPoints E}"] by fastforce
  then obtain x where "x \<in> {0..<nPoints E}" "x \<notin> set meds" by blast
  then have "x \<in> set (filter (\<lambda>point. point \<notin> set meds) (nRange E))"
    using assms(1) by simp
  then have "filter (\<lambda>point. point \<notin> set meds) (nRange E) \<noteq> []"
    by (metis empty_iff list.set(1))
  then show ?thesis
    unfolding seed_distances_def by (cases "filter (\<lambda>point. point \<notin> set meds) (nRange E)") auto
qed

lemma seed_index_bounds:
  assumes "0 \<le> startProb E" "startProb E < endProb E" "endProb E \<le> 1" "1 \<le> count"
  shows "0 \<le> random (startIdx E count) (endIdx E count) r
         \<and> random (startIdx E count) (endIdx E count) r < int count"
proof -
  have s: "0 \<le> startIdx E count \<and> startIdx E count \<le> int count - 1"
    using assms by (intro startIdx_bounds) auto
  have e: "0 \<le> endIdx E count \<and> endIdx E count \<le> int count - 1"
    using assms by (intro endIdx_bounds) auto
  show ?thesis
    using random_bounds[of "startIdx E count" "endIdx E count" r] s e by linarith
qed

lemma initialize_loop_returns:
  assumes nr: "nRange E = [0..<nPoints E]"
    and w: "0 \<le> startProb E" "startProb E < endProb E" "endProb E \<le> 1"
    and kn: "nClusters E < int (nPoints E)"
    and inv: "distinct meds" "set meds \<subseteq> {0..<nPoints E}" "int (length meds) \<le> nClusters E"
  shows "\<exists>ms. initialize_loop rnd E meds = Inr ms \<and> distinct ms
           \<and> int (length ms) = nClusters E \<and> set ms \<subseteq> {0..<nPoints E}"
  using inv
proof (induction "nat (nClusters E - int (length meds))" arbitrary: meds rule: less_induct)
  case less
  show ?case
  proof (cases "int (length meds) = nClusters E")
    case True
    then show ?thesis using less.prems by (subst initialize_loop.simps) simp
  next
    case False
    then have lt: "int (length meds) < nClusters E" using less.prems(3) by simp
    define distances where "distances = seed_distances E meds"
    define i where "i = random (startIdx E (length distances)) (endIdx E (length distances))
                          (rnd (length meds))"
    define p where "p = fst (sortBy snd distances ! nat i)"
    have "length meds < nPoints E" using lt kn by linarith
    then have count: "1 \<le> length distances"
      unfolding distances_def by (rule seed_count_positive[OF nr])
    have i: "0 \<le> i \<and> i < int (length (sortBy snd distances))"
      using seed_index_bounds[OF w count] unfolding i_def by (simp add: length_sortBy)
    have fresh: "p \<in> set (nRange E) \<and> p \<notin> set meds"
      using seed_pick_fresh[of i E meds] i unfolding p_def distances_def by simp
    have add: "set_add p meds = meds @ [p]" using fresh by (simp add: set_add_fresh)
    have "nat (nClusters E - int (length (set_add p meds))) < nat (nClusters E - int (length meds))"
      using lt by (simp add: add)
    moreover have "distinct (set_add p meds)" using less.prems(1) fresh by (simp add: add)
    moreover have "set (set_add p meds) \<subseteq> {0..<nPoints E}"
      using less.prems(2) fresh nr by (simp add: add)
    moreover have "int (length (set_add p meds)) \<le> nClusters E" using lt by (simp add: add)
    ultimately have IH: "\<exists>ms. initialize_loop rnd E (set_add p meds) = Inr ms \<and> distinct ms
           \<and> int (length ms) = nClusters E \<and> set ms \<subseteq> {0..<nPoints E}"
      by (rule less.hyps)
    have "initialize_loop rnd E meds = initialize_loop rnd E (set_add p meds)"
      using False i
      by (subst initialize_loop.simps) (simp add: Let_def distances_def[symmetric] i_def[symmetric] p_def)
    then show ?thesis using IH by simp
  qed
qed

text \<open>
  With \<open>k \<le> 0\<close> the size of the medoid set never equals \<open>k\<close>: the loop goes on until
  no point is left and then reads outside the empty \<open>distancesSorted\<close>.
\<close>

lemma initialize_loop_throws:
  assumes k: "nClusters E \<le> 0" and ne: "meds \<noteq> []"
  shows "initialize_loop rnd E meds = Inl TypeError"
  using ne
proof (induction "length (filter (\<lambda>x. x \<notin> set meds) (nRange E))" arbitrary: meds
    rule: less_induct)
  case less
  have "0 < length meds" using less.prems by simp
  then have size: "int (length meds) \<noteq> nClusters E" using k by linarith
  define distances where "distances = seed_distances E meds"
  define i where "i = random (startIdx E (length distances)) (endIdx E (length distances))
                        (rnd (length meds))"
  define p where "p = fst (sortBy snd distances ! nat i)"
  define inside where "inside \<longleftrightarrow> 0 \<le> i \<and> i < int (length (sortBy snd distances))"
  have unfold: "initialize_loop rnd E meds
                  = (if inside then initialize_loop rnd E (set_add p meds) else Inl TypeError)"
    by (subst initialize_loop.simps)
      (simp only: size Let_def distances_def[symmetric] i_def[symmetric] p_def[symmetric]
        inside_def[symmetric] if_True not_False_eq_True)
  show ?case
  proof (cases inside)
    case True
    have fresh: "p \<in> set (nRange E) \<and> p \<notin> set meds"
      using seed_pick_fresh[of i E meds] True unfolding p_def distances_def inside_def by simp
    have "length (filter (\<lambda>x. x \<notin> set (set_add p meds)) (nRange E))
            < length (filter (\<lambda>x. x \<notin> set meds) (nRange E))"
      using fresh by (intro length_filter_set_add) simp_all
    moreover have "set_add p meds \<noteq> []" using less.prems by (simp add: set_add_def)
    ultimately have "initialize_loop rnd E (set_add p meds) = Inl TypeError"
      by (rule less.hyps)
    then show ?thesis by (simp only: unfold True if_True)
  next
    case False
    then show ?thesis by (simp only: unfold if_False)
  qed
qed

lemma initializeMedoids_throws:
  assumes "nClusters E \<le> 0"
  shows "initializeMedoids rnd E = Inl TypeError"
  unfolding initializeMedoids_def
  by (rule initialize_loop_throws[OF assms]) (simp add: set_add_def)

lemma initializeMedoids_returns:
  assumes c: "constructor dm k sp ep = Inr E" and k: "0 < k"
  shows "\<exists>ms. initializeMedoids rnd E = Inr ms \<and> distinct ms \<and> int (length ms) = k
                \<and> set ms \<subseteq> {0..<length dm}"
proof -
  note E = constructor_Inr[OF c]
  have w: "0 \<le> startProb E" "startProb E < endProb E" "endProb E \<le> 1"
    and nr: "nRange E = [0..<nPoints E]" and n: "nPoints E = length dm"
    and kE: "nClusters E = k" and kn: "nClusters E < int (nPoints E)"
    using E by simp_all
  have n1: "1 \<le> nPoints E" using k kE kn by linarith
  define first where "first = nat (random 0 (int (nPoints E) - 1) (rnd 0))"
  have "0 \<le> random 0 (int (nPoints E) - 1) (rnd 0)
        \<and> random 0 (int (nPoints E) - 1) (rnd 0) \<le> int (nPoints E) - 1"
    using random_bounds[of 0 "int (nPoints E) - 1" "rnd 0"] n1 by simp
  then have first: "first < nPoints E" unfolding first_def by linarith
  have "\<exists>ms. initialize_loop rnd E (set_add first []) = Inr ms \<and> distinct ms
           \<and> int (length ms) = nClusters E \<and> set ms \<subseteq> {0..<nPoints E}"
    using first k kE by (intro initialize_loop_returns[OF nr w kn]) (simp_all add: set_add_def)
  then show ?thesis
    unfolding initializeMedoids_def first_def kE n .
qed

text \<open>
  C9. On an engine built by the constructor (which checks the probability window):
  whenever at least one point is left (\<open>count \<ge> 1\<close>), \<open>startIdx\<close>, \<open>endIdx\<close> and every
  index that \<open>random\<close> can draw between them lie in \<open>0..count-1\<close>. Every round has a
  point left exactly when \<open>0 < k\<close> (the constructor gives \<open>k < n\<close>), and then
  \<open>initializeMedoids\<close> returns, for every random source, a set of exactly \<open>k\<close> distinct
  indices of \<open>0..n-1\<close>: it never throws the \<open>TypeError\<close> of a read outside
  \<open>distancesSorted\<close>.
\<close>

theorem initializeMedoids_in_bounds:
  assumes c: "constructor dm k sp ep = Inr E"
  shows "(\<forall>count r. 1 \<le> count \<longrightarrow>
            0 \<le> startIdx E count \<and> startIdx E count \<le> int count - 1 \<and>
            0 \<le> endIdx E count \<and> endIdx E count \<le> int count - 1 \<and>
            0 \<le> random (startIdx E count) (endIdx E count) r \<and>
            random (startIdx E count) (endIdx E count) r \<le> int count - 1) \<and>
         (0 < k \<longrightarrow>
            (\<exists>ms. initializeMedoids rnd E = Inr ms \<and> distinct ms \<and> int (length ms) = k
                   \<and> set ms \<subseteq> {0..<length dm}))"
proof -
  have w: "0 \<le> startProb E" "startProb E < endProb E" "endProb E \<le> 1"
    using constructor_Inr[OF c] by simp_all
  have bounds: "0 \<le> startIdx E count \<and> startIdx E count \<le> int count - 1 \<and>
            0 \<le> endIdx E count \<and> endIdx E count \<le> int count - 1 \<and>
            0 \<le> random (startIdx E count) (endIdx E count) r \<and>
            random (startIdx E count) (endIdx E count) r \<le> int count - 1"
    if "1 \<le> count" for count r
    using startIdx_bounds[of E count] endIdx_bounds[of E count]
      seed_index_bounds[OF w that, of r] w that by simp
  show ?thesis using bounds initializeMedoids_returns[OF c, of rnd] by blast
qed

theorem initializeMedoids_in_bounds_witness:
  "(0 \<le> startIdx demo_engine 4 \<and> startIdx demo_engine 4 \<le> 3 \<and>
    0 \<le> endIdx demo_engine 4 \<and> endIdx demo_engine 4 \<le> 3 \<and>
    0 \<le> random (startIdx demo_engine 4) (endIdx demo_engine 4) 7 \<and>
    random (startIdx demo_engine 4) (endIdx demo_engine 4) 7 \<le> 3) \<and>
   (\<exists>ms. initializeMedoids (\<lambda>i. 0) demo_engine = Inr ms \<and> distinct ms \<and> int (length ms) = 2
          \<and> set ms \<subseteq> {0..<5})"
proof -
  have len: "length demo_matrix = 5" by (simp add: demo_matrix_def)
  note t = initializeMedoids_in_bounds[OF demo_constructed, of "\<lambda>i. 0"]
  from t[THEN conjunct1, rule_format, of 4 7] t[THEN conjunct2] show ?thesis
    by (simp add: len)
qed

section \<open>The refinement loop returns, and its cost never rises\<close>

lemma try_swap_returns:
  assumes inv: "run_inv n s" and x: "nonMedoid < n"
  shows "\<exists>s'. try_swap medoid nonMedoid s = Some s' \<and> run_inv n s'"
proof -
  let ?E = "this s"
  let ?new = "set_add nonMedoid (set_delete medoid (new_Set (medoids ?E)))"
  have wf: "well_formed ?E" and n: "nPoints ?E = n"
    and d: "distinct (medoids ?E)" and r: "set (medoids ?E) \<subseteq> {0..<n}"
    using inv unfolding run_inv_def by simp_all
  have "nonMedoid \<in> set ?new" by (simp add: set_set_add)
  then have new1: "?new \<noteq> []" by auto
  have new2: "distinct ?new"
    by (intro distinct_set_add distinct_set_delete distinct_new_Set)
  have new3: "set ?new \<subseteq> {0..<nPoints ?E}"
    using r x n by (auto simp: set_set_add set_set_delete set_new_Set)
  note new = new1 new2 new3
  obtain cl cost where a: "associateMedoidsToClosestPoint ?E ?new = Some (cl, cost)"
    using associate_returns[OF wf new] by blast
  have wf': "well_formed (?E\<lparr>medoids := ?new, clusters := Some cl\<rparr>)"
    using wf by (simp add: well_formed_def)
  show ?thesis
  proof (cases "cost < currentCost s")
    case True
    then have "try_swap medoid nonMedoid s =
        Some (s\<lparr>this := ?E\<lparr>medoids := ?new, clusters := Some cl\<rparr>,
                 costChange := Num (currentCost s - cost), currentCost := cost\<rparr>)"
      using a by (simp add: try_swap_def Let_def)
    moreover have "run_inv n (s\<lparr>this := ?E\<lparr>medoids := ?new, clusters := Some cl\<rparr>,
                 costChange := Num (currentCost s - cost), currentCost := cost\<rparr>)"
      using wf' new n unfolding run_inv_def by simp
    ultimately show ?thesis by simp
  next
    case False
    then have "try_swap medoid nonMedoid s = Some s"
      using a by (simp add: try_swap_def Let_def)
    then show ?thesis using inv by simp
  qed
qed

lemma inner_returns:
  assumes "run_inv n s" "\<forall>x\<in>set xs. x < n"
  shows "\<exists>s'. foldM (try_swap medoid) xs s = Some s' \<and> run_inv n s'"
  using assms
proof (induction xs arbitrary: s)
  case Nil
  then show ?case by simp
next
  case (Cons x xs)
  obtain s1 where s1: "try_swap medoid x s = Some s1" "run_inv n s1"
    using try_swap_returns[OF Cons.prems(1), of x medoid] Cons.prems(2) by auto
  show ?case using Cons.IH[OF s1(2)] Cons.prems(2) s1(1) by simp
qed

lemma getNonMedoids_range:
  assumes "run_inv n s"
  shows "\<forall>x\<in>set (getNonMedoids (this s) (medoids (this s))). x < n"
  using assms unfolding run_inv_def getNonMedoids_def well_formed_def
  by (auto simp: set_new_Set)

lemma outer_returns:
  assumes "run_inv n s"
  shows "\<exists>s'. foldM (\<lambda>medoid s1. foldM (try_swap medoid)
                  (getNonMedoids (this s1) (medoids (this s1))) s1) ms s = Some s'
              \<and> run_inv n s'"
  using assms
proof (induction ms arbitrary: s)
  case Nil
  then show ?case by simp
next
  case (Cons m ms)
  obtain s1 where s1: "foldM (try_swap m) (getNonMedoids (this s) (medoids (this s))) s = Some s1"
      "run_inv n s1"
    using inner_returns[OF Cons.prems getNonMedoids_range[OF Cons.prems]] by blast
  show ?case using Cons.IH[OF s1(2)] s1(1) by simp
qed

lemma run_pass_returns:
  assumes "run_inv n s"
  shows "\<exists>s'. run_pass s = Some s' \<and> run_inv n s'"
proof -
  have "run_inv n (s\<lparr>costChange := Num 0\<rparr>)" using assms by (simp add: run_inv_def)
  from outer_returns[OF this] show ?thesis by (simp add: run_pass_def)
qed

lemma run_loop_returns:
  assumes "run_inv n s"
  shows "\<exists>s' passes. run_loop maxIterations tolerance iteration s = Some (s', passes)
           \<and> run_inv n s' \<and> int passes \<le> max maxIterations (int iteration)"
  using assms
proof (induction maxIterations tolerance iteration s rule: run_loop.induct)
  case (1 maxIterations tolerance iteration s)
  show ?case
  proof (cases "gt_num (costChange s) tolerance \<and> int iteration < maxIterations")
    case True
    obtain s1 where s1: "run_pass s = Some s1" "run_inv n s1"
      using run_pass_returns[OF "1.prems"] by blast
    obtain s' passes where r: "run_loop maxIterations tolerance (iteration + 1) s1 = Some (s', passes)"
        "run_inv n s'" "int passes \<le> max maxIterations (int (iteration + 1))"
      using "1.IH"[OF True s1] by blast
    have "int passes \<le> max maxIterations (int iteration)" using r(3) True by linarith
    then show ?thesis using True s1(1) r(1,2) by simp
  next
    case False
    then show ?thesis using "1.prems" by auto
  qed
qed

text \<open>
  C4. On an engine built by the constructor from a square matrix with \<open>0 < k\<close> (the
  constructor gives \<open>k < n\<close> and the probability window), and for every random source,
  every \<open>maxIterations \<ge> 0\<close> and every tolerance, \<open>run\<close> returns without an error, after
  at most \<open>maxIterations\<close> passes of its outer loop.
\<close>

theorem run_terminates:
  assumes c: "constructor dm k sp ep = Inr E" and sq: "square dm" and k: "0 < k"
    and mi: "0 \<le> maxIterations"
  shows "\<exists>s passes. run_trace rnd E maxIterations tolerance = Some (Inr (s, passes))
           \<and> int passes \<le> maxIterations
           \<and> run rnd E maxIterations tolerance = Some (Inr (this s))"
proof -
  have wf: "well_formed E" using constructor_well_formed[OF c sq] .
  have n: "nPoints E = length dm" using constructor_Inr[OF c] by simp
  obtain ms where ms: "initializeMedoids rnd E = Inr ms" "distinct ms" "int (length ms) = k"
      "set ms \<subseteq> {0..<length dm}"
    using initializeMedoids_returns[OF c k, of rnd] by blast
  let ?E = "E\<lparr>medoids := ms\<rparr>"
  have wf': "well_formed ?E" using wf by (simp add: well_formed_def)
  have ne: "ms \<noteq> []" using ms(3) k by auto
  have r: "set ms \<subseteq> {0..<nPoints ?E}" using ms(4) n by simp
  obtain cl cost where a: "associateMedoidsToClosestPoint ?E ms = Some (cl, cost)"
    using associate_returns[OF wf' ne ms(2) r] by blast
  let ?s = "\<lparr>this = ?E, currentCost = cost, costChange = PInf\<rparr>"
  have "run_inv (length dm) ?s"
    using wf' ne ms(2,4) n by (simp add: run_inv_def)
  then obtain s' passes where l: "run_loop maxIterations tolerance 0 ?s = Some (s', passes)"
      "int passes \<le> max maxIterations (int 0)"
    using run_loop_returns[of "length dm" ?s maxIterations tolerance 0] by blast
  have t: "run_trace rnd E maxIterations tolerance = Some (Inr (s', passes))"
    using ms(1) a l(1) by (simp add: run_trace_def)
  then have "run rnd E maxIterations tolerance = Some (Inr (this s'))"
    by (simp add: run_def)
  moreover have "int passes \<le> maxIterations" using l(2) mi by simp
  ultimately show ?thesis using t by blast
qed

theorem run_terminates_witness:
  "\<exists>s passes. run_trace (\<lambda>i. 0) demo_engine 10 (1 / 100) = Some (Inr (s, passes))
           \<and> int passes \<le> 10
           \<and> run (\<lambda>i. 0) demo_engine 10 (1 / 100) = Some (Inr (this s))"
proof -
  have sq: "square demo_matrix" by (simp add: square_def demo_matrix_def)
  have k: "(0::int) < 2" and mi: "(0::int) \<le> 10" by simp_all
  from run_terminates[OF demo_constructed sq k mi] show ?thesis .
qed

lemma try_swap_result:
  assumes "try_swap medoid nonMedoid s = Some s'"
  shows "s' = s \<or>
         (currentCost s' < currentCost s
          \<and> costChange s' = Num (currentCost s - currentCost s')
          \<and> (\<exists>cl. associateMedoidsToClosestPoint (this s) (medoids (this s'))
                      = Some (cl, currentCost s')
                    \<and> clusters (this s') = Some cl))"
  using assms
  by (auto simp: try_swap_def Let_def split: option.splits if_splits)

lemma foldM_cost:
  assumes "\<And>x s s'. f x s = Some s' \<Longrightarrow> currentCost s' \<le> currentCost s"
    and "foldM f xs s = Some s'"
  shows "currentCost s' \<le> currentCost s"
  using assms(2)
proof (induction xs arbitrary: s)
  case Nil
  then show ?case by simp
next
  case (Cons x xs)
  then obtain s1 where s1: "f x s = Some s1" "foldM f xs s1 = Some s'"
    by (auto split: option.splits)
  have "currentCost s' \<le> currentCost s1" using Cons.IH[OF s1(2)] .
  also have "\<dots> \<le> currentCost s" using assms(1)[OF s1(1)] .
  finally show ?case .
qed

lemma try_swap_cost:
  "try_swap medoid nonMedoid s = Some s' \<Longrightarrow> currentCost s' \<le> currentCost s"
  using try_swap_result[of medoid nonMedoid s s'] by auto

lemma run_pass_cost:
  assumes "run_pass s = Some s'"
  shows "currentCost s' \<le> currentCost s"
proof -
  have inner: "currentCost t' \<le> currentCost t"
    if "foldM (try_swap m) (getNonMedoids (this t) (medoids (this t))) t = Some t'" for m t t'
    using foldM_cost[of "try_swap m", OF try_swap_cost that] .
  let ?f = "\<lambda>medoid s1. foldM (try_swap medoid) (getNonMedoids (this s1) (medoids (this s1))) s1"
  have pass: "foldM ?f (medoids (this s)) (s\<lparr>costChange := Num 0\<rparr>) = Some s'"
    using assms unfolding run_pass_def .
  have "currentCost s' \<le> currentCost (s\<lparr>costChange := Num 0\<rparr>)"
  proof (rule foldM_cost[where f = ?f, OF _ pass])
    fix x t t' assume "?f x t = Some t'"
    then show "currentCost t' \<le> currentCost t" by (rule inner)
  qed
  then show ?thesis by simp
qed

lemma run_loop_cost:
  assumes "run_loop maxIterations tolerance iteration s = Some (s', passes)"
  shows "currentCost s' \<le> currentCost s"
  using assms
proof (induction maxIterations tolerance iteration s rule: run_loop.induct)
  case (1 maxIterations tolerance iteration s)
  show ?case
  proof (cases "gt_num (costChange s) tolerance \<and> int iteration < maxIterations")
    case True
    then obtain s1 where s1: "run_pass s = Some s1"
        "run_loop maxIterations tolerance (iteration + 1) s1 = Some (s', passes)"
      using "1.prems" by (auto split: option.splits)
    have "currentCost s' \<le> currentCost s1" using "1.IH"[OF True s1] .
    also have "\<dots> \<le> currentCost s" using run_pass_cost[OF s1(1)] .
    finally show ?thesis .
  next
    case False
    then show ?thesis using "1.prems" by auto
  qed
qed

text \<open>
  C5. The recorded cost never rises. A step of the inner loop either leaves the state as it
  is or accepts its candidate, and it accepts only a candidate whose configuration cost is
  strictly below the recorded cost: the recorded cost then becomes that lower cost, and
  \<open>costChange\<close> the positive difference. Hence neither a pass nor the whole loop ends with
  a higher recorded cost than it started with.
\<close>

theorem cost_never_increases:
  "(try_swap medoid nonMedoid s = Some s1 \<longrightarrow>
      s1 = s \<or>
      (currentCost s1 < currentCost s
       \<and> costChange s1 = Num (currentCost s - currentCost s1)
       \<and> (\<exists>cl. associateMedoidsToClosestPoint (this s) (medoids (this s1))
                   = Some (cl, currentCost s1)
                 \<and> clusters (this s1) = Some cl))) \<and>
   (run_pass s = Some s2 \<longrightarrow> currentCost s2 \<le> currentCost s) \<and>
   (run_loop maxIterations tolerance iteration s = Some (s3, passes) \<longrightarrow>
      currentCost s3 \<le> currentCost s)"
  using try_swap_result[of medoid nonMedoid s s1] run_pass_cost[of s s2]
    run_loop_cost[of maxIterations tolerance iteration s s3 passes]
  by blast

theorem cost_never_increases_witness:
  "\<exists>s1 s2 s3 passes.
     try_swap 0 1 \<lparr>this = three_engine\<lparr>medoids := [0]\<rparr>, currentCost = 2, costChange = PInf\<rparr>
       = Some s1
     \<and> currentCost s1 < 2 \<and> costChange s1 = Num (2 - currentCost s1)
     \<and> run_pass \<lparr>this = three_engine\<lparr>medoids := [0]\<rparr>, currentCost = 2, costChange = PInf\<rparr>
         = Some s2
     \<and> currentCost s2 \<le> 2
     \<and> run_loop 10 (1 / 100) 0
           \<lparr>this = three_engine\<lparr>medoids := [0]\<rparr>, currentCost = 2, costChange = PInf\<rparr>
         = Some (s3, passes)
     \<and> currentCost s3 \<le> 2"
proof -
  define s where "s = \<lparr>this = three_engine\<lparr>medoids := [0]\<rparr>, currentCost = 2, costChange = PInf\<rparr>"
  define s1 where "s1 = \<lparr>this = three_engine\<lparr>medoids := [1], clusters := Some [(1, [1, 0, 2])]\<rparr>,
             currentCost = 2 / 3, costChange = Num (4 / 3)\<rparr>"
  define s2 where "s2 = \<lparr>this = three_engine\<lparr>medoids := [1, 2], clusters := Some [(1, [1, 0]), (2, [2])]\<rparr>,
             currentCost = 1 / 2, costChange = Num (1 / 6)\<rparr>"
  define s3 where "s3 = \<lparr>this = three_engine\<lparr>medoids := [1, 2], clusters := Some [(1, [1, 0]), (2, [2])]\<rparr>,
             currentCost = 1 / 2, costChange = Num 0\<rparr>"
  have e1: "try_swap 0 1 s = Some s1" unfolding s_def s1_def by code_simp
  have e2: "run_pass s = Some s2" unfolding s_def s2_def by code_simp
  have e3: "run_loop 10 (1 / 100) 0 s = Some (s3, 2)" unfolding s_def s3_def by code_simp
  have c: "currentCost s = 2" by (simp add: s_def)
  have "currentCost s1 \<noteq> currentCost s" by (simp add: s_def s1_def)
  then have ne: "s1 \<noteq> s" by auto
  note t = cost_never_increases[of 0 1 s s1 s2 10 "1 / 100" 0 s3 2]
  have "currentCost s1 < currentCost s \<and> costChange s1 = Num (currentCost s - currentCost s1)"
    using t e1 ne by blast
  moreover have "currentCost s2 \<le> currentCost s" using t e2 by blast
  moreover have "currentCost s3 \<le> currentCost s" using t e3 by blast
  ultimately have "\<exists>s1 s2 s3 passes.
     try_swap 0 1 s = Some s1
     \<and> currentCost s1 < 2 \<and> costChange s1 = Num (2 - currentCost s1)
     \<and> run_pass s = Some s2
     \<and> currentCost s2 \<le> 2
     \<and> run_loop 10 (1 / 100) 0 s = Some (s3, passes)
     \<and> currentCost s3 \<le> 2"
    using e1 e2 e3 unfolding c by blast
  then show ?thesis unfolding s_def .
qed

section \<open>Two runs that leave the engine in a state the documentation excludes\<close>

text \<open>
  C1. \<open>run\<close> binds the initial clustering to a local and never stores it, and it assigns
  \<open>this.clusters\<close> only when a swap is accepted. On the matrix of \<open>App.tsx\<close> with
  \<open>nClusters = 2\<close> and the first draw 0, the seeds are 0 and 4 and their clustering exists,
  yet with \<open>maxIterations = 0\<close> the field \<open>clusters\<close> is still unset after \<open>run\<close>; and
  with the defaults (10 passes, tolerance 0.01) it is unset whatever the first draw is,
  because no swap improves on the seeds.
\<close>

theorem run_leaves_clusters_unset:
  "constructor demo_matrix 2 (9 / 10) (99 / 100) = Inr demo_engine
   \<and> run (\<lambda>i. 0) demo_engine 0 (1 / 100) = Some (Inr (demo_engine\<lparr>medoids := [0, 4]\<rparr>))
   \<and> clusters (demo_engine\<lparr>medoids := [0, 4]\<rparr>) = None
   \<and> associateMedoidsToClosestPoint (demo_engine\<lparr>medoids := [0, 4]\<rparr>) [0, 4]
       = Some ([(0, [0, 1, 2]), (4, [4, 3])], 3 / 2)
   \<and> map (\<lambda>r. map_option (map_sum id clusters) (run (\<lambda>i. r) demo_engine 10 (1 / 100)))
         [0, 1, 2, 3, 4]
       = [Some (Inr None), Some (Inr None), Some (Inr None), Some (Inr None), Some (Inr None)]"
proof -
  have "run (\<lambda>i. 0) demo_engine 0 (1 / 100) = Some (Inr (demo_engine\<lparr>medoids := [0, 4]\<rparr>))"
    by code_simp
  moreover have "clusters (demo_engine\<lparr>medoids := [0, 4]\<rparr>) = None"
    by (simp add: demo_engine_def)
  moreover have "associateMedoidsToClosestPoint (demo_engine\<lparr>medoids := [0, 4]\<rparr>) [0, 4]
       = Some ([(0, [0, 1, 2]), (4, [4, 3])], 3 / 2)"
    by code_simp
  moreover have "map (\<lambda>r. map_option (map_sum id clusters) (run (\<lambda>i. r) demo_engine 10 (1 / 100)))
         [0, 1, 2, 3, 4]
       = [Some (Inr None), Some (Inr None), Some (Inr None), Some (Inr None), Some (Inr None)]"
    by code_simp
  ultimately show ?thesis using demo_constructed by simp
qed

text \<open>
  C3. A candidate is built by deleting the medoid of the outer iteration from the current
  \<open>this.medoids\<close> and adding a non-medoid. Once a swap is accepted, that medoid is no longer
  in \<open>this.medoids\<close>, so for the remaining non-medoids of the same inner loop the deletion
  does nothing and the candidate has one index more. On three points with \<open>nClusters = 1\<close>
  and the first draw 0: the seed is 0, the swap of 0 for 1 is accepted, the next candidate
  is \<open>{1, 2}\<close>, it is accepted too, and \<open>run\<close> ends with two medoids.
\<close>

theorem run_grows_medoid_set:
  "constructor three_matrix 1 (9 / 10) (99 / 100) = Inr three_engine
   \<and> initializeMedoids (\<lambda>i. 0) three_engine = Inr [0]
   \<and> try_swap 0 1 \<lparr>this = three_engine\<lparr>medoids := [0]\<rparr>, currentCost = 2, costChange = Num 0\<rparr>
       = Some \<lparr>this = three_engine\<lparr>medoids := [1], clusters := Some [(1, [1, 0, 2])]\<rparr>,
               currentCost = 2 / 3, costChange = Num (4 / 3)\<rparr>
   \<and> try_swap 0 2 \<lparr>this = three_engine\<lparr>medoids := [1], clusters := Some [(1, [1, 0, 2])]\<rparr>,
                    currentCost = 2 / 3, costChange = Num (4 / 3)\<rparr>
       = Some \<lparr>this = three_engine\<lparr>medoids := [1, 2], clusters := Some [(1, [1, 0]), (2, [2])]\<rparr>,
               currentCost = 1 / 2, costChange = Num (1 / 6)\<rparr>
   \<and> map_option (map_sum id (\<lambda>E. (nClusters E, medoids E)))
         (run (\<lambda>i. 0) three_engine 10 (1 / 100))
       = Some (Inr (1, [1, 2]))"
proof -
  have "constructor three_matrix 1 (9 / 10) (99 / 100) = Inr three_engine"
    by code_simp
  moreover have "initializeMedoids (\<lambda>i. 0) three_engine = Inr [0]"
    by code_simp
  moreover have "try_swap 0 1 \<lparr>this = three_engine\<lparr>medoids := [0]\<rparr>, currentCost = 2, costChange = Num 0\<rparr>
       = Some \<lparr>this = three_engine\<lparr>medoids := [1], clusters := Some [(1, [1, 0, 2])]\<rparr>,
               currentCost = 2 / 3, costChange = Num (4 / 3)\<rparr>"
    by code_simp
  moreover have "try_swap 0 2 \<lparr>this = three_engine\<lparr>medoids := [1], clusters := Some [(1, [1, 0, 2])]\<rparr>,
                    currentCost = 2 / 3, costChange = Num (4 / 3)\<rparr>
       = Some \<lparr>this = three_engine\<lparr>medoids := [1, 2], clusters := Some [(1, [1, 0]), (2, [2])]\<rparr>,
               currentCost = 1 / 2, costChange = Num (1 / 6)\<rparr>"
    by code_simp
  moreover have "map_option (map_sum id (\<lambda>E. (nClusters E, medoids E)))
         (run (\<lambda>i. 0) three_engine 10 (1 / 100))
       = Some (Inr (1, [1, 2]))"
    by code_simp
  ultimately show ?thesis by simp
qed

end
